theory Spec2Isabelle
  imports Main "HOL-Library.Char_ord" "HOL-Library.List_Lexorder" "HOL-Library.Multiset"
begin

section \<open>The pom analyzer: data model\<close>

text \<open>
  The program (\<^verbatim>\<open>src/py.py\<close>) walks a directory for \<^verbatim>\<open>pom.xml\<close> files, reads
  each one with \<^verbatim>\<open>xml.etree.ElementTree\<close>, reads an optional
  \<^verbatim>\<open>application.properties\<close> next to it and concatenates an HTML table.

  Python strings are modelled as \<^typ>\<open>string\<close>; a \<^typ>\<open>char\<close> stands for a code
  point below 256. Exceptions are values of \<open>py_error\<close>; a function that can raise
  returns \<open>py_error + 'a\<close>.
\<close>

datatype py_error =
  ParseError | AttributeError | TypeError | FileNotFoundError | NotADirectoryError

subsection \<open>String operations of the Python runtime\<close>

text \<open>\<^verbatim>\<open>str.isspace\<close> on the code points below 256: tab, line feed, vertical tab, form
  feed, carriage return, the four separators 0x1C..0x1F, space, 0x85 and 0xA0.\<close>

definition is_space :: "char \<Rightarrow> bool" where
  "is_space c = (of_char c \<in> {9, 10, 11, 12, 13, 28, 29, 30, 31, 32, 133, 160 :: nat})"

definition lstrip :: "string \<Rightarrow> string" where
  "lstrip s = dropWhile is_space s"

definition rstrip :: "string \<Rightarrow> string" where
  "rstrip s = rev (dropWhile is_space (rev s))"

text \<open>\<^verbatim>\<open>s.strip()\<close>\<close>

definition strip :: "string \<Rightarrow> string" where
  "strip s = rstrip (lstrip s)"

text \<open>\<^verbatim>\<open>s.startswith(p)\<close>\<close>

definition startswith :: "string \<Rightarrow> string \<Rightarrow> bool" where
  "startswith s p = (take (length p) s = p)"

text \<open>\<^verbatim>\<open>sub in s\<close>\<close>

fun str_contains :: "string \<Rightarrow> string \<Rightarrow> bool" where
  "str_contains sub [] = (sub = [])"
| "str_contains sub (c # cs) = (startswith (c # cs) sub \<or> str_contains sub cs)"

text \<open>\<^verbatim>\<open>line.split('=', 1)\<close>: one piece when there is no \<^verbatim>\<open>=\<close>, else the text before the
  first \<^verbatim>\<open>=\<close> and the text after it.\<close>

definition split_eq1 :: "string \<Rightarrow> string list" where
  "split_eq1 s =
     (case dropWhile (\<lambda>c. c \<noteq> CHR ''='') s of
        [] \<Rightarrow> [s]
      | _ # rest \<Rightarrow> [takeWhile (\<lambda>c. c \<noteq> CHR ''='') s, rest])"

text \<open>\<^verbatim>\<open>str(n)\<close> for a non-negative integer.\<close>

definition digit_char :: "nat \<Rightarrow> char" where
  "digit_char d = char_of (48 + d)"

fun str_nat :: "nat \<Rightarrow> string" where
  "str_nat n = (if n < 10 then [digit_char n] else str_nat (n div 10) @ [digit_char (n mod 10)])"

declare str_nat.simps [simp del]

text \<open>An f-string field \<^verbatim>\<open>{v}\<close> where \<open>v\<close> is a string or \<^verbatim>\<open>None\<close>.\<close>

definition fmt :: "string option \<Rightarrow> string" where
  "fmt v = (case v of None \<Rightarrow> ''None'' | Some s \<Rightarrow> s)"

text \<open>\<^verbatim>\<open>posixpath.join(a, b)\<close> and \<^verbatim>\<open>posixpath.dirname(p)\<close>\<close>

definition path_join :: "string \<Rightarrow> string \<Rightarrow> string" where
  "path_join a b =
     (if startswith b ''/'' then b
      else if a = [] \<or> last a = CHR ''/'' then a @ b
      else a @ ''/'' @ b)"

definition dirname :: "string \<Rightarrow> string" where
  "dirname p =
     (let head = rev (dropWhile (\<lambda>c. c \<noteq> CHR ''/'') (rev p))
      in if head \<noteq> [] \<and> \<not> list_all (\<lambda>c. c = CHR ''/'') head
         then rev (dropWhile (\<lambda>c. c = CHR ''/'') (rev head))
         else head)"

subsection \<open>Dictionaries\<close>

text \<open>A Python \<^verbatim>\<open>dict\<close> keeps insertion order; assigning to a key that is present
  replaces the value in place.\<close>

type_synonym env = "(string \<times> string) list"

fun dict_set :: "env \<Rightarrow> string \<Rightarrow> string \<Rightarrow> env" where
  "dict_set [] k v = [(k, v)]"
| "dict_set ((k', v') # d) k v = (if k' = k then (k, v) # d else (k', v') # dict_set d k v)"

subsection \<open>The environment reader\<close>

text \<open>The body of the loop of \<^verbatim>\<open>read_env_variables\<close>: one line of the file against the
  dictionary built so far. The unpacking \<^verbatim>\<open>key, value = ...\<close> raises \<^verbatim>\<open>ValueError\<close> on a
  one-element list, which the source catches and ignores.\<close>

definition env_line :: "env \<Rightarrow> string \<Rightarrow> env" where
  "env_line env_variables line0 =
     (let line = strip line0
      in if line \<noteq> [] \<and> \<not> startswith line ''#''
         then (case split_eq1 line of
                 [key, val] \<Rightarrow> dict_set env_variables (strip key) (strip val)
               | _ \<Rightarrow> env_variables)
         else env_variables)"

text \<open>\<open>read_lines path\<close> is the file system as the reader sees it: \<open>None\<close> when
  \<^verbatim>\<open>os.path.exists\<close> is false, else the lines of the text file.\<close>

definition properties_path :: "string \<Rightarrow> string" where
  "properties_path project_path =
     path_join (path_join (path_join (path_join project_path ''src'') ''main'') ''resources'')
       ''application.properties''"

definition read_env_variables :: "(string \<Rightarrow> string list option) \<Rightarrow> string \<Rightarrow> env" where
  "read_env_variables read_lines project_path =
     (case read_lines (properties_path project_path) of
        None \<Rightarrow> []
      | Some lines \<Rightarrow> foldl env_line [] lines)"

subsection \<open>Parsed descriptors\<close>

text \<open>An \<^verbatim>\<open>ElementTree\<close> element: its tag (qualified, \<^verbatim>\<open>{uri}name\<close>), its text
  (\<^verbatim>\<open>None\<close> when the element has no character data before its first child) and its
  children in document order. Attributes and tails are never read by the program.\<close>

datatype elem = Elem (tag: string) (elem_text: "string option") (children: "elem list")

definition qname :: "string \<Rightarrow> string" where
  "qname name = ''{http://maven.apache.org/POM/4.0.0}'' @ name"

text \<open>\<^verbatim>\<open>e.find('ns:name', namespaces)\<close>: the first direct child with that name in the POM
  namespace. This is what the library does for every \<open>name\<close> that its path tokenizer
  reads as one tag, which covers the fixed names of the program and every XML element
  name; a name holding a path metacharacter is outside the model.\<close>

definition find_ns :: "elem \<Rightarrow> string \<Rightarrow> elem option" where
  "find_ns e name = List.find (\<lambda>c. tag c = qname name) (children e)"

text \<open>\<^verbatim>\<open>e.findall('.//ns:name', namespaces)\<close>: every proper descendant with that name, in
  document order.\<close>

fun descendants :: "elem \<Rightarrow> elem list" where
  "descendants (Elem t x cs) = concat (map (\<lambda>c. c # descendants c) cs)"

definition findall_ns :: "elem \<Rightarrow> string \<Rightarrow> elem list" where
  "findall_ns e name = filter (\<lambda>d. tag d = qname name) (descendants e)"

subsection \<open>The property resolver\<close>

definition resolve_property :: "elem \<Rightarrow> string \<Rightarrow> string option" where
  "resolve_property pom_tree prop_name =
     (case find_ns pom_tree ''properties'' of
        None \<Rightarrow> None
      | Some properties \<Rightarrow>
          (case find_ns properties prop_name of
             None \<Rightarrow> None
           | Some prop_element \<Rightarrow> elem_text prop_element))"

subsection \<open>The descriptor extractor\<close>

text \<open>The body of the loop over \<^verbatim>\<open>artifactItem\<close> elements: the string it appends, or
  the exception it raises. \<^verbatim>\<open>.text\<close> on a missing child is an \<^verbatim>\<open>AttributeError\<close>;
  \<^verbatim>\<open>"${" in version_text\<close> on a \<^verbatim>\<open>version\<close> element without text is a \<^verbatim>\<open>TypeError\<close>.\<close>

definition api_dependency :: "elem \<Rightarrow> elem \<Rightarrow> py_error + string" where
  "api_dependency root artifactItem =
     (case find_ns artifactItem ''groupId'' of
        None \<Rightarrow> Inl AttributeError
      | Some g \<Rightarrow>
     (case find_ns artifactItem ''artifactId'' of
        None \<Rightarrow> Inl AttributeError
      | Some a \<Rightarrow>
     (let api_group_id = elem_text g; api_artifact_id = elem_text a
      in case find_ns artifactItem ''version'' of
           None \<Rightarrow> Inr (fmt api_group_id @ '':'' @ fmt api_artifact_id)
         | Some version_element \<Rightarrow>
             (case elem_text version_element of
                None \<Rightarrow> Inl TypeError
              | Some version_text \<Rightarrow>
                  if str_contains ''${'' version_text \<and> str_contains ''}'' version_text
                  then
                    (let prop_name = butlast (drop 2 version_text)
                     in case resolve_property root prop_name of
                          None \<Rightarrow>
                            Inr (fmt api_group_id @ '':'' @ fmt api_artifact_id
                                 @ '' ('' @ version_text @ '')'')
                        | Some resolved_version \<Rightarrow>
                            if resolved_version \<noteq> []
                            then Inr (fmt api_group_id @ '':'' @ fmt api_artifact_id
                                      @ '' ('' @ resolved_version @ '')'')
                            else Inr (fmt api_group_id @ '':'' @ fmt api_artifact_id
                                      @ '' ('' @ version_text @ '')''))
                  else Inr (fmt api_group_id @ '':'' @ fmt api_artifact_id
                            @ '' ('' @ version_text @ '')'')))))"

text \<open>The body of the loop over \<^verbatim>\<open>dependency\<close> elements.\<close>

definition dependency_string :: "elem \<Rightarrow> py_error + string" where
  "dependency_string dependency =
     (case find_ns dependency ''groupId'' of
        None \<Rightarrow> Inl AttributeError
      | Some g \<Rightarrow>
     (case find_ns dependency ''artifactId'' of
        None \<Rightarrow> Inl AttributeError
      | Some a \<Rightarrow> Inr (fmt (elem_text g) @ '':'' @ fmt (elem_text a))))"

text \<open>A \<^verbatim>\<open>for\<close> loop that appends the result of its body to a list and stops at the first
  exception.\<close>

fun append_loop :: "('a \<Rightarrow> py_error + string) \<Rightarrow> 'a list \<Rightarrow> string list \<Rightarrow> py_error + string list" where
  "append_loop body [] acc = Inr acc"
| "append_loop body (x # xs) acc =
     (case body x of Inl e \<Rightarrow> Inl e | Inr s \<Rightarrow> append_loop body xs (acc @ [s]))"

record project_info =
  project_name :: string
  api_dependencies :: "string list"
  dependencies :: "string list"
  env_variables :: env
  pom_file_path :: string

text \<open>What the program reads from outside: \<open>et_parse path\<close> is the root element of
  \<^verbatim>\<open>ET.parse(path)\<close> or the exception it raises, \<open>read_lines\<close> is as above.\<close>

record world =
  et_parse :: "string \<Rightarrow> py_error + elem"
  read_lines :: "string \<Rightarrow> string list option"

text \<open>The \<^verbatim>\<open>try\<close> block of \<^verbatim>\<open>extract_project_info\<close>. The result carries the lines printed
  and the tuple returned: \<open>None\<close> for the tuple of five \<^verbatim>\<open>None\<close>s.\<close>

definition extract_try :: "world \<Rightarrow> string \<Rightarrow> py_error + (string list \<times> project_info option)" where
  "extract_try w pom_file =
     (case et_parse w pom_file of
        Inl e \<Rightarrow> Inl e
      | Inr root \<Rightarrow>
          (case (find_ns root ''groupId'', find_ns root ''artifactId'') of
             (Some group_id_element, Some artifact_id_element) \<Rightarrow>
               (case append_loop (api_dependency root) (findall_ns root ''artifactItem'') [] of
                  Inl e \<Rightarrow> Inl e
                | Inr api \<Rightarrow>
               (case append_loop dependency_string (findall_ns root ''dependency'') [] of
                  Inl e \<Rightarrow> Inl e
                | Inr deps \<Rightarrow>
                    Inr ([], Some \<lparr>project_name =
                                     fmt (elem_text group_id_element) @ '':<b>''
                                     @ fmt (elem_text artifact_id_element) @ ''</b>'',
                                   api_dependencies = sort api,
                                   dependencies = deps,
                                   env_variables =
                                     read_env_variables (read_lines w) (dirname pom_file),
                                   pom_file_path = pom_file\<rparr>)))
           | _ \<Rightarrow>
               Inr ([''Missing groupId or artifactId in '' @ pom_file
                     @ ''. Skipping this file.''], None)))"

text \<open>\<^verbatim>\<open>except (ParseError, AttributeError)\<close>: these two are caught, every other
  exception leaves the function.\<close>

definition extract_project_info :: "world \<Rightarrow> string \<Rightarrow> py_error + (string list \<times> project_info option)" where
  "extract_project_info w pom_file =
     (case extract_try w pom_file of
        Inl e \<Rightarrow>
          (if e = ParseError \<or> e = AttributeError
           then Inr ([''Error parsing '' @ pom_file @ ''. Skipping this file.''], None)
           else Inl e)
      | Inr r \<Rightarrow> Inr r)"

subsection \<open>Traversal\<close>

text \<open>A directory tree: a directory lists its entries by name, in the order
  \<^verbatim>\<open>os.scandir\<close> gives them.\<close>

datatype node = File | Dir "(string \<times> node) list"

fun is_dir :: "node \<Rightarrow> bool" where
  "is_dir File = False"
| "is_dir (Dir es) = True"

text \<open>\<^verbatim>\<open>os.walk(path)\<close>, top-down: a triple (path, directory names, file names) for the
  directory, then the walks of its subdirectories. On something that is not a directory
  it yields nothing.\<close>

fun os_walk :: "string \<Rightarrow> node \<Rightarrow> (string \<times> string list \<times> string list) list"
  and walk_dirs :: "string \<Rightarrow> (string \<times> node) list \<Rightarrow> (string \<times> string list \<times> string list) list" where
  "os_walk here File = []"
| "os_walk here (Dir es) =
     (here, map fst (filter (\<lambda>e. is_dir (snd e)) es), map fst (filter (\<lambda>e. \<not> is_dir (snd e)) es))
     # walk_dirs here es"
| "walk_dirs here [] = []"
| "walk_dirs here ((name, n) # es) =
     (if is_dir n then os_walk (path_join here name) n else []) @ walk_dirs here es"

text \<open>\<^verbatim>\<open>os.path.exists(os.path.join(subfolder, name))\<close> for a scanned entry \<open>n\<close>.\<close>

fun exists_in :: "node \<Rightarrow> string \<Rightarrow> bool" where
  "exists_in File name = False"
| "exists_in (Dir es) name = (name \<in> set (map fst es))"

text \<open>\<open>here\<close> is what lies at the path \<open>directory\<close>: nothing, a file or a directory.
  \<^verbatim>\<open>os.scandir\<close> raises on the first two, \<^verbatim>\<open>os.walk\<close> swallows the error.\<close>

definition find_pom_files :: "node option \<Rightarrow> string \<Rightarrow> bool \<Rightarrow> py_error + string list" where
  "find_pom_files here directory include_subfolders =
     (if include_subfolders
      then Inr (concat (map (\<lambda>(root, dirs, files).
                  map (path_join root) (filter (\<lambda>file. file = ''pom.xml'') files))
                (case here of None \<Rightarrow> [] | Some n \<Rightarrow> os_walk directory n)))
      else (case here of
              None \<Rightarrow> Inl FileNotFoundError
            | Some File \<Rightarrow> Inl NotADirectoryError
            | Some (Dir es) \<Rightarrow>
                (let subfolders = map (\<lambda>f. (path_join directory (fst f), snd f))
                                    (filter (\<lambda>f. is_dir (snd f)) es)
                 in Inr (concat (map (\<lambda>(subfolder, n).
                           (let pom_file = path_join subfolder ''pom.xml''
                            in if exists_in n ''pom.xml'' then [pom_file] else []))
                         subfolders)))))"

subsection \<open>The report builder\<close>

definition html_head :: string where
  "html_head =
     ''<style>''
     @ ''table { width: 100%; border-collapse: collapse; }''
     @ ''th, td { border: 1px solid black; padding: 8px; text-align: left; }''
     @ ''th { background-color: #f2f2f2; }''
     @ ''.path-column { width: 150px; word-wrap: break-word; }''
     @ ''</style>''
     @ ''<div style='overflow-x:auto;'>''
     @ ''<table>''
     @ ''<tr><th>#</th><th>Project Name</th><th style='width: 200px;'>Path to pom.xml</th><th>API Dependencies</th><th>Dependencies</th><th>ENV Variables</th></tr>''"

definition ul :: "string list \<Rightarrow> string" where
  "ul items = (if items \<noteq> [] then ''<ul>'' @ concat (map (\<lambda>i. ''<li>'' @ i @ ''</li>'') items) @ ''</ul>'' else [])"

definition render_row :: "nat \<Rightarrow> project_info \<Rightarrow> string" where
  "render_row project_counter r =
     ''<tr>''
     @ ''<td>'' @ str_nat project_counter @ ''</td>''
     @ ''<td>'' @ project_name r @ ''</td>''
     @ ''<td class='path-column'>'' @ pom_file_path r @ ''</td>''
     @ ''<td>'' @ ul (api_dependencies r) @ ''</td>''
     @ ''<td>'' @ ul (dependencies r) @ ''</td>''
     @ ''<td>'' @ ul (map (\<lambda>(key, val). key @ '': '' @ val) (env_variables r)) @ ''</td>''
     @ ''</tr>''"

text \<open>The loop of \<^verbatim>\<open>process_projects\<close> over the files found, on the pair
  (\<^verbatim>\<open>html_content\<close>, \<^verbatim>\<open>project_counter\<close>).\<close>

fun rows_loop :: "world \<Rightarrow> string list \<Rightarrow> string \<Rightarrow> nat \<Rightarrow> py_error + (string \<times> nat)" where
  "rows_loop w [] html_content project_counter = Inr (html_content, project_counter)"
| "rows_loop w (pom_file # rest) html_content project_counter =
     (case extract_project_info w pom_file of
        Inl e \<Rightarrow> Inl e
      | Inr (printed, None) \<Rightarrow> rows_loop w rest html_content project_counter
      | Inr (printed, Some r) \<Rightarrow>
          rows_loop w rest (html_content @ render_row project_counter r) (project_counter + 1))"

text \<open>\<^verbatim>\<open>process_projects\<close>: the result is the text written to the output file.\<close>

definition process_projects :: "world \<Rightarrow> node option \<Rightarrow> string \<Rightarrow> bool \<Rightarrow> py_error + string" where
  "process_projects w here directory include_subfolders =
     (case find_pom_files here directory include_subfolders of
        Inl e \<Rightarrow> Inl e
      | Inr pom_files \<Rightarrow>
          (case rows_loop w pom_files html_head 1 of
             Inl e \<Rightarrow> Inl e
           | Inr (html_content, project_counter) \<Rightarrow>
               Inr (html_content @ ''</table>'' @ ''</div>'')))"

subsection \<open>The environment reader in the words of its description\<close>

text \<open>A line is blank when it holds only whitespace; it is a comment when its first
  non-whitespace character is \<^verbatim>\<open>#\<close>. Any other line that holds a \<^verbatim>\<open>=\<close> gives a key, the
  trimmed text before the first \<^verbatim>\<open>=\<close>, and a value, the trimmed text after it.\<close>

definition blank :: "string \<Rightarrow> bool" where
  "blank l = list_all is_space l"

definition comment_line :: "string \<Rightarrow> bool" where
  "comment_line l = (case dropWhile is_space l of [] \<Rightarrow> False | c # _ \<Rightarrow> c = CHR ''#'')"

definition spec_line :: "string \<Rightarrow> (string \<times> string) option" where
  "spec_line l =
     (if blank l \<or> comment_line l then None
      else if CHR ''='' \<notin> set l then None
      else Some (strip (takeWhile (\<lambda>c. c \<noteq> CHR ''='') l),
                 strip (tl (dropWhile (\<lambda>c. c \<noteq> CHR ''='') l))))"

subsection \<open>Example descriptors\<close>

text \<open>A world in which every path parses to the given root element and no properties
  file exists.\<close>

definition world_of :: "elem \<Rightarrow> world" where
  "world_of root = \<lparr>et_parse = (\<lambda>path. Inr root), read_lines = (\<lambda>path. None)\<rparr>"


text \<open>An element of the POM namespace with text and no children, and one with children
  and no text.\<close>

definition leaf :: "string \<Rightarrow> string \<Rightarrow> elem" where
  "leaf name s = Elem (qname name) (Some s) []"

definition node_ns :: "string \<Rightarrow> elem list \<Rightarrow> elem" where
  "node_ns name cs = Elem (qname name) None cs"

text \<open>An \<^verbatim>\<open>artifactItem\<close> whose version is the placeholder \<^verbatim>\<open>${api.version}\<close>, in a
  descriptor that defines the property, in one that does not, and in one where the
  property element is empty.\<close>

definition item_x :: elem where
  "item_x = node_ns ''artifactItem''
     [leaf ''groupId'' ''com.acme'', leaf ''artifactId'' ''api'', leaf ''version'' ''${api.version}'']"



definition root_empty_property :: elem where
  "root_empty_property = node_ns ''project''
     [node_ns ''properties'' [node_ns ''api.version'' []], node_ns ''build'' [item_x]]"

text \<open>A descriptor with two \<^verbatim>\<open>artifactItem\<close>s and two \<^verbatim>\<open>dependency\<close> elements, neither in
  alphabetical order.\<close>

definition root_sorted :: elem where
  "root_sorted = node_ns ''project''
     [leaf ''groupId'' ''com.acme'', leaf ''artifactId'' ''widget'',
      node_ns ''build''
        [node_ns ''artifactItem''
           [leaf ''groupId'' ''com.acme'', leaf ''artifactId'' ''b'', leaf ''version'' ''2.0''],
         node_ns ''artifactItem'' [leaf ''groupId'' ''com.acme'', leaf ''artifactId'' ''a'']],
      node_ns ''dependencies''
        [node_ns ''dependency'' [leaf ''groupId'' ''org.z'', leaf ''artifactId'' ''z''],
         node_ns ''dependency'' [leaf ''groupId'' ''org.a'', leaf ''artifactId'' ''a'']]]"

definition record_sorted :: project_info where
  "record_sorted =
     \<lparr>project_name = ''com.acme:<b>widget</b>'',
      api_dependencies = [''com.acme:a'', ''com.acme:b (2.0)''],
      dependencies = [''org.z:z'', ''org.a:a''],
      env_variables = [],
      pom_file_path = ''proj/pom.xml''\<rparr>"

text \<open>A descriptor whose \<^verbatim>\<open>groupId\<close> element is empty, and one without a \<^verbatim>\<open>groupId\<close>.\<close>

definition root_empty_group :: elem where
  "root_empty_group = node_ns ''project'' [node_ns ''groupId'' [], leaf ''artifactId'' ''widget'']"

definition root_no_group :: elem where
  "root_no_group = node_ns ''project'' [leaf ''artifactId'' ''widget'']"

text \<open>A descriptor with an \<^verbatim>\<open>artifactItem\<close> whose \<^verbatim>\<open>version\<close> element is empty, and the same
  followed by a \<^verbatim>\<open>dependency\<close> without a \<^verbatim>\<open>groupId\<close>.\<close>

definition root_empty_version :: elem where
  "root_empty_version = node_ns ''project''
     [leaf ''groupId'' ''com.acme'', leaf ''artifactId'' ''widget'',
      node_ns ''build''
        [node_ns ''artifactItem''
           [leaf ''groupId'' ''com.acme'', leaf ''artifactId'' ''api'', node_ns ''version'' []]]]"

definition dependency_no_group :: elem where
  "dependency_no_group = node_ns ''dependency'' [leaf ''artifactId'' ''core'']"

definition root_empty_version_no_group :: elem where
  "root_empty_version_no_group = node_ns ''project''
     [leaf ''groupId'' ''com.acme'', leaf ''artifactId'' ''widget'',
      node_ns ''build''
        [node_ns ''artifactItem''
           [leaf ''groupId'' ''com.acme'', leaf ''artifactId'' ''api'', node_ns ''version'' []]],
      node_ns ''dependencies'' [dependency_no_group]]"

subsection \<open>The report in the words of its description\<close>







subsection \<open>Traversal in the words of its description\<close>

text \<open>Every file of a tree, at any depth, as the list of names that leads to it from the
  top; the path of such a file below \<open>directory\<close> is
  \<open>foldl path_join directory names\<close>.\<close>

fun file_paths :: "node \<Rightarrow> string list list"
  and entries_paths :: "(string \<times> node) list \<Rightarrow> string list list" where
  "file_paths File = [[]]"
| "file_paths (Dir es) = entries_paths es"
| "entries_paths [] = []"
| "entries_paths ((name, n) # es) = map ((#) name) (file_paths n) @ entries_paths es"

text \<open>The paths of the files named \<^verbatim>\<open>pom.xml\<close> at any depth of the tree \<open>n\<close> that lies at
  the path \<open>here\<close>.\<close>

definition pom_below :: "string \<Rightarrow> node \<Rightarrow> string set" where
  "pom_below here n =
     {foldl path_join here ps | ps. ps \<in> set (file_paths n) \<and> ps \<noteq> [] \<and> last ps = ''pom.xml''}"

section \<open>Properties\<close>

subsection \<open>Stripping and splitting\<close>


lemma dropWhile_keep: "\<not> P x \<Longrightarrow> dropWhile P (ys @ x # zs) = dropWhile P ys @ x # zs"
  by (induction ys) auto

lemma dropWhile_all: "(\<And>x. x \<in> set xs \<Longrightarrow> P x) \<Longrightarrow> dropWhile P xs = []"
  by simp

lemma rstrip_Cons_nonspace: "\<not> is_space c \<Longrightarrow> rstrip (c # r) = c # rstrip r"
  by (simp add: rstrip_def dropWhile_keep)

lemma rstrip_append_nonspace: "\<not> is_space c \<Longrightarrow> rstrip (xs @ c # r) = xs @ c # rstrip r"
  by (simp add: rstrip_def dropWhile_keep)

lemma lstrip_append_nonspace: "\<not> is_space c \<Longrightarrow> lstrip (xs @ c # r) = lstrip xs @ c # r"
  by (simp add: lstrip_def dropWhile_keep)

lemma lstrip_all_space: "list_all is_space s \<Longrightarrow> lstrip s = []"
  by (simp add: lstrip_def list_all_iff)

lemma rstrip_all_space: "list_all is_space s \<Longrightarrow> rstrip s = []"
  by (simp add: rstrip_def list_all_iff)

lemma lstrip_eq_Nil: "lstrip s = [] \<longleftrightarrow> list_all is_space s"
  by (simp add: lstrip_def list_all_iff)

lemma lstrip_rstrip: "lstrip (rstrip s) = rstrip (lstrip s)"
proof (cases "list_all is_space s")
  case True
  then have 1: "dropWhile is_space s = []" and 2: "dropWhile is_space (rev s) = []"
    by (simp_all add: list_all_iff)
  show ?thesis
    unfolding lstrip_def rstrip_def 1 2 by simp
next
  case False
  then have "dropWhile is_space s \<noteq> []"
    by (simp add: list_all_iff)
  then obtain d r where dr: "dropWhile is_space s = d # r"
    by (cases "dropWhile is_space s") auto
  then have d: "\<not> is_space d"
    by (metis hd_dropWhile list.sel(1) list.distinct(1))
  have s: "s = takeWhile is_space s @ d # r"
    using dr by (metis takeWhile_dropWhile_id)
  have tw: "lstrip (takeWhile is_space s) = []"
    by (auto simp: lstrip_def dest: set_takeWhileD)
  have "rstrip s = takeWhile is_space s @ d # rstrip r"
    using rstrip_append_nonspace [OF d, of "takeWhile is_space s" r] s by simp
  then have "lstrip (rstrip s) = d # rstrip r"
    using lstrip_append_nonspace [OF d, of "takeWhile is_space s" "rstrip r"] tw by simp
  moreover have "rstrip (lstrip s) = d # rstrip r"
    using dr d by (simp add: lstrip_def rstrip_Cons_nonspace)
  ultimately show ?thesis by simp
qed

lemma strip_lstrip: "strip (lstrip s) = strip s"
  by (simp add: strip_def lstrip_def)

lemma rstrip_idem: "rstrip (rstrip s) = rstrip s"
  by (simp add: rstrip_def)

lemma strip_rstrip: "strip (rstrip s) = strip s"
  by (simp add: strip_def lstrip_rstrip rstrip_idem)

lemma strip_eq_Nil: "strip s = [] \<longleftrightarrow> list_all is_space s"
proof (cases "list_all is_space s")
  case True
  then show ?thesis by (simp add: strip_def lstrip_all_space rstrip_def)
next
  case False
  then obtain d r where dr: "lstrip s = d # r"
    by (cases "lstrip s") (auto simp: lstrip_eq_Nil)
  then have "\<not> is_space d"
    unfolding lstrip_def by (metis hd_dropWhile list.sel(1) list.distinct(1))
  then show ?thesis using dr False by (simp add: strip_def rstrip_Cons_nonspace)
qed

lemma hd_strip: "hd (strip s) = hd (lstrip s)"
proof (cases "lstrip s")
  case Nil
  then show ?thesis by (simp add: strip_def rstrip_def)
next
  case (Cons d r)
  then have "\<not> is_space d"
    unfolding lstrip_def by (metis hd_dropWhile list.sel(1) list.distinct(1))
  then show ?thesis using Cons by (simp add: strip_def rstrip_Cons_nonspace)
qed


lemma eq_not_space: "\<not> is_space CHR ''=''"
  by (simp add: is_space_def)

lemma startswith_hash: "startswith s ''#'' \<longleftrightarrow> (case s of [] \<Rightarrow> False | c # _ \<Rightarrow> c = CHR ''#'')"
  by (cases s) (auto simp: startswith_def)

lemma comment_line_strip: "strip l \<noteq> [] \<Longrightarrow> startswith (strip l) ''#'' \<longleftrightarrow> comment_line l"
proof -
  assume ne: "strip l \<noteq> []"
  then have "lstrip l \<noteq> []"
    by (auto simp: strip_def rstrip_def)
  then have "hd (strip l) = hd (dropWhile is_space l)" "dropWhile is_space l \<noteq> []"
    using hd_strip [of l] by (simp_all add: lstrip_def)
  then show ?thesis using ne
    by (cases "strip l"; cases "dropWhile is_space l") (auto simp: startswith_hash comment_line_def)
qed

lemma split_eq1_no_eq: "CHR ''='' \<notin> set s \<Longrightarrow> split_eq1 s = [s]"
proof -
  assume "CHR ''='' \<notin> set s"
  then have d: "dropWhile (\<lambda>c. c \<noteq> CHR ''='') s = []"
    by auto
  show ?thesis
    unfolding split_eq1_def d by simp
qed

lemma split_eq1_at: "CHR ''='' \<notin> set a \<Longrightarrow> split_eq1 (a @ CHR ''='' # b) = [a, b]"
proof -
  assume a: "CHR ''='' \<notin> set a"
  then have "dropWhile (\<lambda>c. c \<noteq> CHR ''='') (a @ CHR ''='' # b) = CHR ''='' # b"
    by (induction a) auto
  moreover from a have "takeWhile (\<lambda>c. c \<noteq> CHR ''='') (a @ CHR ''='' # b) = a"
    by (induction a) auto
  ultimately show ?thesis by (simp add: split_eq1_def)
qed

lemma strip_at_eq:
  assumes "CHR ''='' \<in> set l"
  shows "strip l = lstrip (takeWhile (\<lambda>c. c \<noteq> CHR ''='') l) @ CHR ''=''
                   # rstrip (tl (dropWhile (\<lambda>c. c \<noteq> CHR ''='') l))"
proof -
  define a where "a = takeWhile (\<lambda>c. c \<noteq> CHR ''='') l"
  define b where "b = tl (dropWhile (\<lambda>c. c \<noteq> CHR ''='') l)"
  have dw: "dropWhile (\<lambda>c. c \<noteq> CHR ''='') l \<noteq> []"
    using assms by (simp add: dropWhile_eq_Nil_conv)
  then have "hd (dropWhile (\<lambda>c. c \<noteq> CHR ''='') l) = CHR ''=''"
    using hd_dropWhile [of "\<lambda>c. c \<noteq> CHR ''=''" l] by simp
  with dw have "dropWhile (\<lambda>c. c \<noteq> CHR ''='') l = CHR ''='' # b"
    unfolding b_def by (cases "dropWhile (\<lambda>c. c \<noteq> CHR ''='') l") auto
  then have l: "l = a @ CHR ''='' # b"
    unfolding a_def by (metis takeWhile_dropWhile_id)
  have "strip (a @ CHR ''='' # b) = lstrip a @ CHR ''='' # rstrip b"
    by (simp add: strip_def lstrip_append_nonspace rstrip_append_nonspace eq_not_space)
  with l show ?thesis
    unfolding a_def b_def by simp
qed

lemma no_eq_lstrip_key: "CHR ''='' \<notin> set (lstrip (takeWhile (\<lambda>c. c \<noteq> CHR ''='') l))"
  unfolding lstrip_def by (auto dest!: set_dropWhileD set_takeWhileD)

lemma strip_split:
  assumes "CHR ''='' \<in> set l"
  shows "split_eq1 (strip l) =
           [lstrip (takeWhile (\<lambda>c. c \<noteq> CHR ''='') l), rstrip (tl (dropWhile (\<lambda>c. c \<noteq> CHR ''='') l))]"
  using split_eq1_at [OF no_eq_lstrip_key] strip_at_eq [OF assms] by simp

lemma eq_in_strip: "CHR ''='' \<in> set (strip l) \<longleftrightarrow> CHR ''='' \<in> set l"
proof
  assume "CHR ''='' \<in> set (strip l)"
  then show "CHR ''='' \<in> set l"
    unfolding strip_def rstrip_def lstrip_def by (auto dest!: set_dropWhileD)
next
  assume a: "CHR ''='' \<in> set l"
  show "CHR ''='' \<in> set (strip l)"
    using strip_at_eq [OF a] by simp
qed

lemma env_line_spec:
  "env_line d l = (case spec_line l of None \<Rightarrow> d | Some (k, v) \<Rightarrow> dict_set d k v)"
proof (cases "strip l = []")
  case True
  then show ?thesis
    by (simp add: env_line_def spec_line_def blank_def strip_eq_Nil)
next
  case ne: False
  then have nb: "\<not> blank l"
    by (simp add: blank_def strip_eq_Nil)
  show ?thesis
  proof (cases "comment_line l")
    case True
    then show ?thesis using ne
      by (simp add: env_line_def spec_line_def comment_line_strip)
  next
    case nc: False
    show ?thesis
    proof (cases "CHR ''='' \<in> set l")
      case True
      then show ?thesis using ne nb nc
        by (simp add: env_line_def spec_line_def comment_line_strip strip_split
            strip_lstrip strip_rstrip)
    next
      case False
      then have "CHR ''='' \<notin> set (strip l)"
        by (simp add: eq_in_strip)
      then show ?thesis using ne nb nc False
        by (simp add: env_line_def spec_line_def comment_line_strip split_eq1_no_eq)
    qed
  qed
qed

lemma map_of_dict_set: "map_of (dict_set d k v) = (map_of d)(k \<mapsto> v)"
  by (induction d k v rule: dict_set.induct) auto


lemma foldl_env_line:
  "foldl env_line d ls = foldl (\<lambda>d (k, v). dict_set d k v) d (List.map_filter spec_line ls)"
  by (induction ls arbitrary: d) (auto simp: env_line_spec List.map_filter_simps split: option.splits)

lemma map_of_foldl_dict_set:
  "map_of (foldl (\<lambda>d (k, v). dict_set d k v) d ps) = map_of (rev ps @ d)"
proof (induction ps arbitrary: d)
  case Nil
  then show ?case by simp
next
  case (Cons p ps)
  obtain k v where p: "p = (k, v)" by (cases p)
  have "map_of (rev ps @ dict_set d k v) = map_of (rev ps @ (k, v) # d)"
    by (simp add: map_of_dict_set)
  then show ?case using Cons [of "dict_set d k v"] p by simp
qed

lemma spec_line_examples:
  "spec_line ''foo.bar=baz=qux'' = Some (''foo.bar'', ''baz=qux'')"
  "spec_line ''KEY='' = Some (''KEY'', [])"
  "spec_line ''no separator here'' = None"
  "spec_line ''  # comment'' = None"
  by code_simp+

text \<open>Claim C7. \<^verbatim>\<open>read_env_variables\<close> returns the empty dictionary when the
  \<^verbatim>\<open>application.properties\<close> file does not exist. Otherwise its result is built from the
  lines that are neither blank nor comments (first non-whitespace character \<^verbatim>\<open>#\<close>) and
  that hold a \<^verbatim>\<open>=\<close>: each such line sets the trimmed text before the first \<^verbatim>\<open>=\<close> to the
  trimmed text after it, in file order, a later assignment replacing an earlier one.
  So \<^verbatim>\<open>foo.bar=baz=qux\<close> maps \<^verbatim>\<open>foo.bar\<close> to \<^verbatim>\<open>baz=qux\<close>, \<^verbatim>\<open>KEY=\<close> maps \<^verbatim>\<open>KEY\<close> to the
  empty string, and a line without \<^verbatim>\<open>=\<close> or a comment line changes nothing.\<close>

theorem read_env_variables_spec:
  "read_env_variables rl p =
     (case rl (properties_path p) of
        None \<Rightarrow> []
      | Some lines \<Rightarrow> foldl (\<lambda>d (k, v). dict_set d k v) [] (List.map_filter spec_line lines))
   \<and> map_of (read_env_variables rl p) =
     (case rl (properties_path p) of
        None \<Rightarrow> Map.empty
      | Some lines \<Rightarrow> map_of (rev (List.map_filter spec_line lines)))
   \<and> env_line d ''foo.bar=baz=qux'' = dict_set d ''foo.bar'' ''baz=qux''
   \<and> env_line d ''KEY='' = dict_set d ''KEY'' []
   \<and> env_line d ''no separator here'' = d
   \<and> env_line d ''  # comment'' = d"
proof -
  have 1: "read_env_variables rl p =
     (case rl (properties_path p) of
        None \<Rightarrow> []
      | Some lines \<Rightarrow> foldl (\<lambda>d (k, v). dict_set d k v) [] (List.map_filter spec_line lines))"
    by (simp add: read_env_variables_def foldl_env_line split: option.splits)
  have 2: "map_of (read_env_variables rl p) =
     (case rl (properties_path p) of
        None \<Rightarrow> Map.empty
      | Some lines \<Rightarrow> map_of (rev (List.map_filter spec_line lines)))"
    unfolding 1 by (cases "rl (properties_path p)") (simp_all add: map_of_foldl_dict_set)
  have 3: "env_line d ''foo.bar=baz=qux'' = dict_set d ''foo.bar'' ''baz=qux''"
    "env_line d ''KEY='' = dict_set d ''KEY'' []"
    "env_line d ''no separator here'' = d"
    "env_line d ''  # comment'' = d"
    by (simp_all only: env_line_spec spec_line_examples option.case prod.case)
  from 1 2 3 show ?thesis by blast
qed

theorem read_env_variables_spec_witness:
  "read_env_variables
     (\<lambda>q. if q = ''proj/src/main/resources/application.properties''
           then Some [''# settings'', [], ''foo.bar=baz=qux'', ''KEY='', ''junk'', ''KEY = v '']
           else None) ''proj''
   = [(''foo.bar'', ''baz=qux''), (''KEY'', ''v'')]
   \<and> read_env_variables (\<lambda>q. None) ''proj'' = []"
proof -
  define rl :: "string \<Rightarrow> string list option" where
    "rl = (\<lambda>q. if q = ''proj/src/main/resources/application.properties''
           then Some [''# settings'', [], ''foo.bar=baz=qux'', ''KEY='', ''junk'', ''KEY = v '']
           else None)"
  have p: "properties_path ''proj'' = ''proj/src/main/resources/application.properties''"
    by code_simp
  have rlp: "rl (properties_path ''proj'')
             = Some [''# settings'', [], ''foo.bar=baz=qux'', ''KEY='', ''junk'', ''KEY = v '']"
    unfolding p rl_def by simp
  have l: "List.map_filter spec_line
             [''# settings'', [], ''foo.bar=baz=qux'', ''KEY='', ''junk'', ''KEY = v '']
           = [(''foo.bar'', ''baz=qux''), (''KEY'', []), (''KEY'', ''v'')]"
    by code_simp
  have "read_env_variables rl ''proj''
        = foldl (\<lambda>d (k, v). dict_set d k v) []
            [(''foo.bar'', ''baz=qux''), (''KEY'', []), (''KEY'', ''v'')]"
    using read_env_variables_spec [of rl "''proj''" "[]", THEN conjunct1]
    unfolding rlp option.case l .
  then have a: "read_env_variables rl ''proj'' = [(''foo.bar'', ''baz=qux''), (''KEY'', ''v'')]"
    by simp
  have b: "read_env_variables (\<lambda>q. None) ''proj'' = []"
    using read_env_variables_spec [of "\<lambda>q. None" "''proj''" "[]", THEN conjunct1] by simp
  from a b show ?thesis unfolding rl_def by simp
qed

text \<open>Claim C10. A line whose first non-whitespace character is \<^verbatim>\<open>=\<close> is not ignored:
  the loop body stores the empty string as a key, mapped to the trimmed remainder of the
  line after that \<^verbatim>\<open>=\<close>.\<close>

theorem env_line_empty_key:
  assumes "lstrip l = CHR ''='' # rest"
  shows "env_line d l = dict_set d [] (strip rest)
         \<and> map_of (env_line d l) [] = Some (strip rest)"
proof -
  have l: "l = takeWhile is_space l @ CHR ''='' # rest"
    using assms unfolding lstrip_def by (metis takeWhile_dropWhile_id)
  have sp: "CHR ''='' \<notin> set (takeWhile is_space l)"
    using eq_not_space by (auto dest: set_takeWhileD)
  have mem: "CHR ''='' \<in> set l"
    using l by (metis in_set_conv_decomp)
  have tw: "takeWhile (\<lambda>c. c \<noteq> CHR ''='') l = takeWhile is_space l"
  proof -
    have "takeWhile (\<lambda>c. c \<noteq> CHR ''='') (xs @ CHR ''='' # rest) = xs"
      if "CHR ''='' \<notin> set xs" for xs
      using that by (induction xs) auto
    from this [OF sp] l show ?thesis by simp
  qed
  have dw: "dropWhile (\<lambda>c. c \<noteq> CHR ''='') l = CHR ''='' # rest"
  proof -
    have "dropWhile (\<lambda>c. c \<noteq> CHR ''='') (xs @ CHR ''='' # rest) = CHR ''='' # rest"
      if "CHR ''='' \<notin> set xs" for xs
      using that by (induction xs) auto
    from this [OF sp] l show ?thesis by simp
  qed
  have key: "strip (takeWhile is_space l) = []"
    by (auto simp: strip_eq_Nil list_all_iff dest: set_takeWhileD)
  have nb: "\<not> blank l"
    using mem eq_not_space by (auto simp: blank_def list_all_iff)
  have nc: "\<not> comment_line l"
    using assms by (simp add: comment_line_def lstrip_def)
  have "spec_line l = Some ([], strip rest)"
    using nb nc mem by (simp add: spec_line_def tw dw key)
  then have "env_line d l = dict_set d [] (strip rest)"
    by (simp add: env_line_spec)
  then show ?thesis by (simp add: map_of_dict_set)
qed

theorem env_line_empty_key_witness:
  "lstrip ''  =value '' = CHR ''='' # ''value ''
   \<and> env_line [(''a'', ''b'')] ''  =value '' = [(''a'', ''b''), ([], ''value'')]"
proof -
  have h: "lstrip ''  =value '' = CHR ''='' # ''value ''"
    by code_simp
  have s: "strip ''value '' = ''value''"
    by code_simp
  show ?thesis
    using h env_line_empty_key [OF h, of "[(''a'', ''b'')]"] by (simp add: s)
qed

subsection \<open>Placeholders\<close>

lemma startswith_self_append: "startswith (sub @ ys) sub"
  by (simp add: startswith_def)

lemma str_contains_prefix: "str_contains sub (sub @ ys)"
  by (cases "sub @ ys") (auto simp: startswith_def dest: arg_cong [where f = "take (length sub)"])

lemma str_contains_append: "str_contains sub zs \<Longrightarrow> str_contains sub (xs @ zs)"
  by (induction xs) auto

lemma str_contains_mid: "str_contains sub (xs @ sub @ ys)"
  by (simp add: str_contains_append str_contains_prefix)

lemma placeholder_contains:
  "str_contains ''${'' (''${'' @ x @ ''}'')" "str_contains ''}'' (''${'' @ x @ ''}'')"
  using str_contains_prefix [of "''${''" "x @ ''}''"] str_contains_mid [of "''}''" "''${'' @ x" "[]"]
  by simp_all

lemma placeholder_name: "butlast (drop 2 (''${'' @ x @ ''}'')) = x"
  by (simp add: butlast_append)


text \<open>Claim C9. When the version text is exactly \<^verbatim>\<open>${p}\<close> and the \<^verbatim>\<open>properties\<close> block has
  a child named \<open>p\<close> without text, the resolution counts as unsuccessful and the string
  recorded keeps the raw placeholder, \<^verbatim>\<open>group:artifact (${p})\<close>.\<close>

theorem api_dependency_empty_property:
  assumes "find_ns artifactItem ''groupId'' = Some g"
    and "find_ns artifactItem ''artifactId'' = Some a"
    and "find_ns artifactItem ''version'' = Some version_element"
    and "elem_text version_element = Some (''${'' @ p @ ''}'')"
    and "find_ns root ''properties'' = Some properties"
    and "find_ns properties p = Some e"
    and "elem_text e = None"
  shows "api_dependency root artifactItem
           = Inr (fmt (elem_text g) @ '':'' @ fmt (elem_text a) @ '' (${'' @ p @ ''})'')"
proof -
  have "resolve_property root p = None"
    using assms(5-7) by (simp add: resolve_property_def)
  then show ?thesis
    using assms(1-4) placeholder_contains [of p] placeholder_name [of p]
    by (simp add: api_dependency_def)
qed

lemma item_x_finds:
  "find_ns item_x ''groupId'' = Some (leaf ''groupId'' ''com.acme'')"
  "find_ns item_x ''artifactId'' = Some (leaf ''artifactId'' ''api'')"
  "find_ns item_x ''version'' = Some (leaf ''version'' ''${api.version}'')"
  by code_simp+

lemma version_text_x: "elem_text (leaf ''version'' ''${api.version}'') = Some (''${'' @ ''api.version'' @ ''}'')"
  by (simp add: leaf_def)


theorem api_dependency_empty_property_witness:
  "api_dependency root_empty_property item_x = Inr ''com.acme:api (${api.version})''"
proof -
  have p: "find_ns root_empty_property ''properties'' = Some (node_ns ''properties'' [node_ns ''api.version'' []])"
    "find_ns (node_ns ''properties'' [node_ns ''api.version'' []]) ''api.version''
       = Some (node_ns ''api.version'' [])"
    by code_simp+
  have e: "elem_text (node_ns ''api.version'' []) = None"
    by (simp add: node_ns_def)
  show ?thesis
    using api_dependency_empty_property [OF item_x_finds version_text_x p e]
    by (simp add: leaf_def fmt_def)
qed

subsection \<open>The extractor\<close>

lemma append_loop_result:
  "append_loop body xs acc = Inr res \<Longrightarrow> \<exists>ss. map body xs = map Inr ss \<and> res = acc @ ss"
proof (induction xs arbitrary: acc)
  case Nil
  then show ?case by simp
next
  case (Cons x xs)
  then obtain s where s: "body x = Inr s" and rest: "append_loop body xs (acc @ [s]) = Inr res"
    by (auto split: sum.splits)
  from Cons.IH [OF rest] obtain ss where "map body xs = map Inr ss" "res = (acc @ [s]) @ ss"
    by blast
  with s have "map body (x # xs) = map Inr (s # ss) \<and> res = acc @ s # ss"
    by simp
  then show ?case by blast
qed

lemma extract_try_parsed:
  "et_parse w pom = Inr root \<Longrightarrow> extract_try w pom =
          (case (find_ns root ''groupId'', find_ns root ''artifactId'') of
             (Some group_id_element, Some artifact_id_element) \<Rightarrow>
               (case append_loop (api_dependency root) (findall_ns root ''artifactItem'') [] of
                  Inl e \<Rightarrow> Inl e
                | Inr api \<Rightarrow>
               (case append_loop dependency_string (findall_ns root ''dependency'') [] of
                  Inl e \<Rightarrow> Inl e
                | Inr deps \<Rightarrow>
                    Inr ([], Some \<lparr>project_name =
                                     fmt (elem_text group_id_element) @ '':<b>''
                                     @ fmt (elem_text artifact_id_element) @ ''</b>'',
                                   api_dependencies = sort api,
                                   dependencies = deps,
                                   env_variables =
                                     read_env_variables (read_lines w) (dirname pom),
                                   pom_file_path = pom\<rparr>)))
           | _ \<Rightarrow>
               Inr ([''Missing groupId or artifactId in '' @ pom
                     @ ''. Skipping this file.''], None))"
  unfolding extract_try_def by (simp only: sum.case)

lemma extract_try_missing:
  assumes "et_parse w pom = Inr root"
    and "find_ns root ''groupId'' = None \<or> find_ns root ''artifactId'' = None"
  shows "extract_try w pom =
           Inr ([''Missing groupId or artifactId in '' @ pom @ ''. Skipping this file.''], None)"
proof (cases "find_ns root ''groupId''")
  case None
  show ?thesis
    unfolding extract_try_parsed [OF assms(1)] None by (simp only: prod.case option.case)
next
  case (Some g)
  with assms(2) have a: "find_ns root ''artifactId'' = None" by simp
  show ?thesis
    unfolding extract_try_parsed [OF assms(1)] Some a by (simp only: prod.case option.case)
qed

lemma extract_try_present:
  assumes "et_parse w pom = Inr root"
    and "find_ns root ''groupId'' = Some g" and "find_ns root ''artifactId'' = Some a"
  shows "extract_try w pom =
           (case append_loop (api_dependency root) (findall_ns root ''artifactItem'') [] of
              Inl e \<Rightarrow> Inl e
            | Inr api \<Rightarrow>
           (case append_loop dependency_string (findall_ns root ''dependency'') [] of
              Inl e \<Rightarrow> Inl e
            | Inr deps \<Rightarrow>
                Inr ([], Some \<lparr>project_name =
                                 fmt (elem_text g) @ '':<b>'' @ fmt (elem_text a) @ ''</b>'',
                               api_dependencies = sort api,
                               dependencies = deps,
                               env_variables = read_env_variables (read_lines w) (dirname pom),
                               pom_file_path = pom\<rparr>)))"
  unfolding extract_try_parsed [OF assms(1)] assms(2,3) by (simp only: prod.case option.case)

lemma extract_try_record:
  assumes "extract_try w pom = Inr (printed, Some r)"
  shows "\<exists>root g a api deps.
           et_parse w pom = Inr root
           \<and> find_ns root ''groupId'' = Some g \<and> find_ns root ''artifactId'' = Some a
           \<and> append_loop (api_dependency root) (findall_ns root ''artifactItem'') [] = Inr api
           \<and> append_loop dependency_string (findall_ns root ''dependency'') [] = Inr deps
           \<and> printed = []
           \<and> r = \<lparr>project_name = fmt (elem_text g) @ '':<b>'' @ fmt (elem_text a) @ ''</b>'',
                  api_dependencies = sort api, dependencies = deps,
                  env_variables = read_env_variables (read_lines w) (dirname pom),
                  pom_file_path = pom\<rparr>"
proof -
  obtain root where root: "et_parse w pom = Inr root"
    using assms by (cases "et_parse w pom") (simp_all add: extract_try_def)
  have ids: "\<not> (find_ns root ''groupId'' = None \<or> find_ns root ''artifactId'' = None)"
  proof
    assume "find_ns root ''groupId'' = None \<or> find_ns root ''artifactId'' = None"
    from extract_try_missing [OF root this] assms show False by simp
  qed
  then obtain g a where g: "find_ns root ''groupId'' = Some g"
    and a: "find_ns root ''artifactId'' = Some a"
    by auto
  note e = extract_try_present [OF root g a]
  obtain api where
    api: "append_loop (api_dependency root) (findall_ns root ''artifactItem'') [] = Inr api"
    using assms unfolding e
    by (cases "append_loop (api_dependency root) (findall_ns root ''artifactItem'') []") simp_all
  obtain deps where
    deps: "append_loop dependency_string (findall_ns root ''dependency'') [] = Inr deps"
    using assms unfolding e api
    by (cases "append_loop dependency_string (findall_ns root ''dependency'') []") simp_all
  have "Inr (printed, Some r) =
        (Inr ([], Some \<lparr>project_name = fmt (elem_text g) @ '':<b>'' @ fmt (elem_text a) @ ''</b>'',
             api_dependencies = sort api, dependencies = deps,
             env_variables = read_env_variables (read_lines w) (dirname pom),
             pom_file_path = pom\<rparr>) :: py_error + (string list \<times> project_info option))"
    using assms unfolding e api deps by (simp only: sum.case)
  then have "printed = []" and
        "r = \<lparr>project_name = fmt (elem_text g) @ '':<b>'' @ fmt (elem_text a) @ ''</b>'',
             api_dependencies = sort api, dependencies = deps,
             env_variables = read_env_variables (read_lines w) (dirname pom),
             pom_file_path = pom\<rparr>"
    by (simp_all only: sum.inject prod.inject option.inject)
  with root g a api deps show ?thesis
    by (intro exI conjI)
qed

lemma extract_project_info_Inr:
  "extract_project_info w pom = Inr (printed, Some r) \<longleftrightarrow> extract_try w pom = Inr (printed, Some r)"
  by (auto simp: extract_project_info_def split: sum.splits if_splits)

text \<open>Claim C4. In every record extracted, the stored \<^verbatim>\<open>apiDependencies\<close> list is the
  ascending sort of the strings formatted from the \<^verbatim>\<open>artifactItem\<close> elements: it is sorted,
  it has the same strings as many times, and any other order of the same strings gives
  the same list. The stored \<^verbatim>\<open>dependencies\<close> list holds the strings of the \<^verbatim>\<open>dependency\<close>
  elements in document order.\<close>

theorem api_dependencies_sorted_dependencies_in_order:
  assumes "extract_project_info w pom = Inr (printed, Some r)"
  shows "\<exists>root apis.
           et_parse w pom = Inr root
           \<and> map (api_dependency root) (findall_ns root ''artifactItem'') = map Inr apis
           \<and> api_dependencies r = sort apis
           \<and> sorted (api_dependencies r)
           \<and> mset (api_dependencies r) = mset apis
           \<and> (\<forall>apis'. mset apis' = mset apis \<longrightarrow> sort apis' = api_dependencies r)
           \<and> map dependency_string (findall_ns root ''dependency'') = map Inr (dependencies r)"
proof -
  from assms have "extract_try w pom = Inr (printed, Some r)"
    by (simp add: extract_project_info_Inr)
  from extract_try_record [OF this] obtain root :: elem and g a :: elem and api deps where
    root: "et_parse w pom = Inr root"
    and api: "append_loop (api_dependency root) (findall_ns root ''artifactItem'') [] = Inr api"
    and deps: "append_loop dependency_string (findall_ns root ''dependency'') [] = Inr deps"
    and rec: "r = \<lparr>project_name = fmt (elem_text g) @ '':<b>'' @ fmt (elem_text a) @ ''</b>'',
                  api_dependencies = sort api, dependencies = deps,
                  env_variables = read_env_variables (read_lines w) (dirname pom),
                  pom_file_path = pom\<rparr>"
    by blast
  have r: "api_dependencies r = sort api" "dependencies r = deps"
    unfolding rec by simp_all
  from append_loop_result [OF api]
  have 1: "map (api_dependency root) (findall_ns root ''artifactItem'') = map Inr api"
    by simp
  from append_loop_result [OF deps]
  have 2: "map dependency_string (findall_ns root ''dependency'') = map Inr deps"
    by simp
  have 3: "\<forall>apis'. mset apis' = mset api \<longrightarrow> sort apis' = sort api"
  proof (intro allI impI)
    fix apis' :: "string list"
    assume "mset apis' = mset api"
    then have "mset (sort api) = mset apis'" by simp
    then show "sort apis' = sort api"
      by (rule properties_for_sort) simp
  qed
  show ?thesis
  proof (intro exI conjI)
    show "et_parse w pom = Inr root" by (rule root)
    show "map (api_dependency root) (findall_ns root ''artifactItem'') = map Inr api" by (rule 1)
    show "api_dependencies r = sort api" by (rule r(1))
    show "sorted (api_dependencies r)" unfolding r(1) by simp
    show "mset (api_dependencies r) = mset api" unfolding r(1) by simp
    show "\<forall>apis'. mset apis' = mset api \<longrightarrow> sort apis' = api_dependencies r"
      unfolding r(1) by (rule 3)
    show "map dependency_string (findall_ns root ''dependency'') = map Inr (dependencies r)"
      unfolding r(2) by (rule 2)
  qed
qed

theorem api_dependencies_sorted_dependencies_in_order_witness:
  "extract_project_info (world_of root_sorted) ''proj/pom.xml'' = Inr ([], Some record_sorted)
   \<and> sorted (api_dependencies record_sorted)
   \<and> map dependency_string (findall_ns root_sorted ''dependency'')
       = map Inr (dependencies record_sorted)"
proof -
  have h: "extract_project_info (world_of root_sorted) ''proj/pom.xml''
           = Inr ([], Some record_sorted)"
    by code_simp
  from api_dependencies_sorted_dependencies_in_order [OF h] obtain root where
    "et_parse (world_of root_sorted) ''proj/pom.xml'' = Inr root"
    and s: "sorted (api_dependencies record_sorted)"
    and d: "map dependency_string (findall_ns root ''dependency'')
            = map Inr (dependencies record_sorted)"
    by blast
  then have "root = root_sorted"
    by (simp add: world_of_def)
  with h s d show ?thesis by simp
qed

text \<open>Claim C1, as the code has it. A record is produced only when both the \<^verbatim>\<open>groupId\<close> and
  the \<^verbatim>\<open>artifactId\<close> element are direct children of the root; their text may be absent,
  and absent text is written \<^verbatim>\<open>None\<close> in the name. When either element is missing from a
  parsed descriptor, the function prints the missing-identifier line and returns absent,
  and the loop of the report adds no row for that file.\<close>

theorem extract_project_info_identifiers:
  "(extract_project_info w pom = Inr (printed, Some r) \<longrightarrow>
      (\<exists>root g a. et_parse w pom = Inr root
         \<and> find_ns root ''groupId'' = Some g \<and> find_ns root ''artifactId'' = Some a
         \<and> project_name r = fmt (elem_text g) @ '':<b>'' @ fmt (elem_text a) @ ''</b>''))
   \<and> (et_parse w pom = Inr root'
        \<and> (find_ns root' ''groupId'' = None \<or> find_ns root' ''artifactId'' = None) \<longrightarrow>
      extract_project_info w pom
        = Inr ([''Missing groupId or artifactId in '' @ pom @ ''. Skipping this file.''], None)
      \<and> rows_loop w (pom # rest) html_content project_counter
        = rows_loop w rest html_content project_counter)"
proof (intro conjI impI)
  assume "extract_project_info w pom = Inr (printed, Some r)"
  then have "extract_try w pom = Inr (printed, Some r)"
    by (simp add: extract_project_info_Inr)
  from extract_try_record [OF this] obtain root g a api deps where
    root: "et_parse w pom = Inr root"
    and g: "find_ns root ''groupId'' = Some g" and a: "find_ns root ''artifactId'' = Some a"
    and rec: "r = \<lparr>project_name = fmt (elem_text g) @ '':<b>'' @ fmt (elem_text a) @ ''</b>'',
                  api_dependencies = sort api, dependencies = deps,
                  env_variables = read_env_variables (read_lines w) (dirname pom),
                  pom_file_path = pom\<rparr>"
    by blast
  have "project_name r = fmt (elem_text g) @ '':<b>'' @ fmt (elem_text a) @ ''</b>''"
    unfolding rec by simp
  with root g a
  show "\<exists>root g a. et_parse w pom = Inr root
         \<and> find_ns root ''groupId'' = Some g \<and> find_ns root ''artifactId'' = Some a
         \<and> project_name r = fmt (elem_text g) @ '':<b>'' @ fmt (elem_text a) @ ''</b>''"
    by blast
next
  assume "et_parse w pom = Inr root'
        \<and> (find_ns root' ''groupId'' = None \<or> find_ns root' ''artifactId'' = None)"
  then have "extract_try w pom
        = Inr ([''Missing groupId or artifactId in '' @ pom @ ''. Skipping this file.''], None)"
    using extract_try_missing [of w pom root'] by blast
  then have e: "extract_project_info w pom
        = Inr ([''Missing groupId or artifactId in '' @ pom @ ''. Skipping this file.''], None)"
    unfolding extract_project_info_def by (simp only: sum.case)
  show "extract_project_info w pom
        = Inr ([''Missing groupId or artifactId in '' @ pom @ ''. Skipping this file.''], None)"
    by (rule e)
  show "rows_loop w (pom # rest) html_content project_counter
        = rows_loop w rest html_content project_counter"
    unfolding rows_loop.simps e by (simp only: sum.case prod.case option.case)
qed

theorem extract_project_info_identifiers_witness:
  "find_ns root_sorted ''groupId'' = Some (leaf ''groupId'' ''com.acme'')
   \<and> project_name record_sorted = ''com.acme:<b>widget</b>''
   \<and> find_ns root_no_group ''groupId'' = None
   \<and> extract_project_info (world_of root_no_group) ''proj/pom.xml''
       = Inr ([''Missing groupId or artifactId in proj/pom.xml. Skipping this file.''], None)
   \<and> rows_loop (world_of root_no_group) [''proj/pom.xml''] html_head 1 = Inr (html_head, 1)"
proof -
  have h: "extract_project_info (world_of root_sorted) ''proj/pom.xml''
           = Inr ([], Some record_sorted)"
    by code_simp
  have f: "find_ns root_sorted ''groupId'' = Some (leaf ''groupId'' ''com.acme'')"
    by code_simp
  from extract_project_info_identifiers [of "world_of root_sorted" "''proj/pom.xml''" "[]"
      record_sorted undefined "[]" "[]" 0, THEN conjunct1, rule_format, OF h]
  obtain root g a where "et_parse (world_of root_sorted) ''proj/pom.xml'' = Inr root"
    and "find_ns root ''groupId'' = Some g" and "find_ns root ''artifactId'' = Some a"
    and n: "project_name record_sorted = fmt (elem_text g) @ '':<b>'' @ fmt (elem_text a) @ ''</b>''"
    by blast
  then have "root = root_sorted"
    by (simp add: world_of_def)
  moreover have fa: "find_ns root_sorted ''artifactId'' = Some (leaf ''artifactId'' ''widget'')"
    by code_simp
  ultimately have "g = leaf ''groupId'' ''com.acme''" "a = leaf ''artifactId'' ''widget''"
    using \<open>find_ns root ''groupId'' = Some g\<close> \<open>find_ns root ''artifactId'' = Some a\<close> f
    by simp_all
  then have 1: "project_name record_sorted = ''com.acme:<b>widget</b>''"
    using n by (simp add: leaf_def fmt_def)
  have m: "et_parse (world_of root_no_group) ''proj/pom.xml'' = Inr root_no_group
           \<and> (find_ns root_no_group ''groupId'' = None \<or> find_ns root_no_group ''artifactId'' = None)"
    by code_simp
  have ng: "find_ns root_no_group ''groupId'' = None"
    by code_simp
  from extract_project_info_identifiers [of "world_of root_no_group" "''proj/pom.xml''" "[]"
      undefined root_no_group "[]" html_head 1, THEN conjunct2, rule_format, OF m]
  have 2: "extract_project_info (world_of root_no_group) ''proj/pom.xml''
       = Inr ([''Missing groupId or artifactId in proj/pom.xml. Skipping this file.''], None)"
    and 3: "rows_loop (world_of root_no_group) [''proj/pom.xml''] html_head 1 = Inr (html_head, 1)"
    by simp_all
  from f 1 ng 2 3 show ?thesis by blast
qed

text \<open>A record is produced, with the name \<^verbatim>\<open>None:<b>widget</b>\<close>, from a descriptor whose
  \<^verbatim>\<open>groupId\<close> element has no text.\<close>

theorem record_without_group_text:
  "extract_project_info (world_of root_empty_group) ''proj/pom.xml''
     = Inr ([], Some \<lparr>project_name = ''None:<b>widget</b>'', api_dependencies = [],
               dependencies = [], env_variables = [], pom_file_path = ''proj/pom.xml''\<rparr>)
   \<and> find_ns root_empty_group ''groupId'' = Some (node_ns ''groupId'' [])
   \<and> elem_text (node_ns ''groupId'' []) = None"
  by code_simp

text \<open>Claim C2 fails on this input. A \<^verbatim>\<open>version\<close> element without text makes
  \<^verbatim>\<open>"${" in version_text\<close> raise \<^verbatim>\<open>TypeError\<close>, which the handler for \<^verbatim>\<open>ParseError\<close> and
  \<^verbatim>\<open>AttributeError\<close> does not catch: the exception leaves \<^verbatim>\<open>extract_project_info\<close> and
  ends the run of \<^verbatim>\<open>process_projects\<close> before any report is written.\<close>

theorem extract_project_info_uncaught_type_error:
  "extract_project_info (world_of root_empty_version) ''root/proj/pom.xml'' = Inl TypeError
   \<and> find_pom_files (Some (Dir [(''proj'', Dir [(''pom.xml'', File)])])) ''root'' False
       = Inr [''root/proj/pom.xml'']
   \<and> process_projects (world_of root_empty_version)
       (Some (Dir [(''proj'', Dir [(''pom.xml'', File)])])) ''root'' False = Inl TypeError"
  by code_simp

text \<open>Claim C5 fails on this input. The descriptor holds a \<^verbatim>\<open>dependency\<close> without a
  \<^verbatim>\<open>groupId\<close> child, but an \<^verbatim>\<open>artifactItem\<close> before it has a \<^verbatim>\<open>version\<close> element without
  text: the extraction does not return absent, it raises \<^verbatim>\<open>TypeError\<close>.\<close>

theorem extract_project_info_type_error_before_missing_child:
  "dependency_no_group \<in> set (findall_ns root_empty_version_no_group ''dependency'')
   \<and> find_ns dependency_no_group ''groupId'' = None
   \<and> extract_project_info (world_of root_empty_version_no_group) ''proj/pom.xml''
       = Inl TypeError"
  by code_simp

subsection \<open>The report\<close>









subsection \<open>Traversal\<close>

text \<open>Claim C6 fails on this input. Without recursion the function tests
  \<^verbatim>\<open>os.path.exists\<close>, which is true of a directory as well: a directory named \<^verbatim>\<open>pom.xml\<close>
  inside a subfolder is returned although it is not a file. The recursive walk looks only
  at the file names of each directory and does not return it.\<close>

theorem find_pom_files_directory_named_pom:
  "find_pom_files (Some (Dir [(''A'', Dir [(''pom.xml'', Dir [])])])) ''root'' False
     = Inr [''root/A/pom.xml'']
   \<and> find_pom_files (Some (Dir [(''A'', Dir [(''pom.xml'', Dir [])])])) ''root'' True = Inr []"
  by code_simp

text \<open>The example of the description: without recursion only \<^verbatim>\<open>A/pom.xml\<close> is found (the
  root's own \<^verbatim>\<open>pom.xml\<close> is not), with recursion both.\<close>

lemma find_pom_files_example:
  "find_pom_files (Some (Dir [(''pom.xml'', File), (''A'', Dir [(''pom.xml'', File)]),
       (''B'', Dir [(''nested'', Dir [(''pom.xml'', File)])])])) ''root'' False
     = Inr [''root/A/pom.xml'']"
  "find_pom_files (Some (Dir [(''A'', Dir [(''pom.xml'', File)]),
       (''B'', Dir [(''nested'', Dir [(''pom.xml'', File)])])])) ''root'' True
     = Inr [''root/A/pom.xml'', ''root/B/nested/pom.xml'']"
  by code_simp+

subsection \<open>Which exceptions leave the extractor\<close>

lemma api_dependency_missing_child:
  "find_ns item ''groupId'' = None \<or> find_ns item ''artifactId'' = None \<Longrightarrow>
     api_dependency root item = Inl AttributeError"
  by (cases "find_ns item ''groupId''") (auto simp: api_dependency_def)

lemma dependency_string_missing_child:
  "find_ns d ''groupId'' = None \<or> find_ns d ''artifactId'' = None \<Longrightarrow>
     dependency_string d = Inl AttributeError"
  by (cases "find_ns d ''groupId''") (auto simp: dependency_string_def)

lemma dependency_string_error: "dependency_string d = Inl e \<Longrightarrow> e = AttributeError"
  by (cases "find_ns d ''groupId''"; cases "find_ns d ''artifactId''")
    (auto simp: dependency_string_def)

lemma api_dependency_error:
  assumes "api_dependency root item = Inl e"
  shows "e = AttributeError
         \<or> (e = TypeError \<and> (\<exists>ve. find_ns item ''version'' = Some ve \<and> elem_text ve = None))"
proof (cases "find_ns item ''groupId''")
  case None
  with assms show ?thesis by (simp add: api_dependency_def)
next
  case g: (Some g)
  show ?thesis
  proof (cases "find_ns item ''artifactId''")
    case None
    with assms g show ?thesis by (simp add: api_dependency_def)
  next
    case a: (Some a)
    show ?thesis
    proof (cases "find_ns item ''version''")
      case None
      with assms g a show ?thesis by (simp add: api_dependency_def)
    next
      case ve: (Some ve)
      show ?thesis
      proof (cases "elem_text ve")
        case None
        with assms g a ve show ?thesis by (simp add: api_dependency_def)
      next
        case (Some version_text)
        with assms g a ve show ?thesis
          by (simp add: api_dependency_def Let_def split: option.splits if_splits)
      qed
    qed
  qed
qed

lemma append_loop_error:
  "append_loop body xs acc = Inl e \<Longrightarrow> \<exists>x\<in>set xs. body x = Inl e"
  by (induction xs arbitrary: acc) (auto split: sum.splits)

lemma append_loop_raises:
  assumes "\<exists>x\<in>set xs. body x = Inl e"
    and "\<forall>x\<in>set xs. \<forall>e'. body x = Inl e' \<longrightarrow> e' = e"
  shows "append_loop body xs acc = Inl e"
  using assms
proof (induction xs arbitrary: acc)
  case Nil
  then show ?case by simp
next
  case (Cons x xs)
  show ?case
  proof (cases "body x")
    case (Inl e')
    with Cons.prems(2) have "e' = e" by simp
    with Inl show ?thesis by simp
  next
    case (Inr s)
    with Cons.prems(1) have "\<exists>x\<in>set xs. body x = Inl e" by auto
    moreover from Cons.prems(2) have "\<forall>x\<in>set xs. \<forall>e'. body x = Inl e' \<longrightarrow> e' = e" by simp
    ultimately have "append_loop body xs (acc @ [s]) = Inl e" by (rule Cons.IH)
    with Inr show ?thesis by simp
  qed
qed

text \<open>An exception that leaves \<^verbatim>\<open>extract_project_info\<close> is neither of the two the handler
  names: it comes from the parser, or it is the \<^verbatim>\<open>TypeError\<close> of a \<^verbatim>\<open>version\<close> element
  without text.\<close>

lemma extract_project_info_raises:
  assumes "extract_project_info w pom = Inl e"
  shows "e \<noteq> ParseError \<and> e \<noteq> AttributeError
         \<and> (et_parse w pom = Inl e
             \<or> (e = TypeError
                 \<and> (\<exists>root item ve. et_parse w pom = Inr root
                       \<and> item \<in> set (findall_ns root ''artifactItem'')
                       \<and> find_ns item ''version'' = Some ve \<and> elem_text ve = None)))"
proof -
  from assms have t: "extract_try w pom = Inl e" and ne: "e \<noteq> ParseError \<and> e \<noteq> AttributeError"
    by (auto simp: extract_project_info_def split: sum.splits if_splits)
  show ?thesis
  proof (cases "et_parse w pom")
    case (Inl e')
    with t have "e' = e" by (simp add: extract_try_def)
    with Inl ne show ?thesis by simp
  next
    case (Inr root)
    have ids: "\<not> (find_ns root ''groupId'' = None \<or> find_ns root ''artifactId'' = None)"
    proof
      assume "find_ns root ''groupId'' = None \<or> find_ns root ''artifactId'' = None"
      from extract_try_missing [OF Inr this] t show False by simp
    qed
    then obtain g a where g: "find_ns root ''groupId'' = Some g"
      and a: "find_ns root ''artifactId'' = Some a"
      by auto
    note p = extract_try_present [OF Inr g a]
    show ?thesis
    proof (cases "append_loop (api_dependency root) (findall_ns root ''artifactItem'') []")
      case l: (Inl e')
      with t have "e' = e" unfolding p by simp
      with l append_loop_error obtain item where
        item: "item \<in> set (findall_ns root ''artifactItem'')" "api_dependency root item = Inl e"
        by blast
      from api_dependency_error [OF item(2)] ne item(1) Inr show ?thesis
        by blast
    next
      case r: (Inr api)
      show ?thesis
      proof (cases "append_loop dependency_string (findall_ns root ''dependency'') []")
        case (Inl e')
        with t r have "e' = e" unfolding p by simp
        with Inl append_loop_error obtain d where "dependency_string d = Inl e"
          by blast
        from dependency_string_error [OF this] ne show ?thesis by simp
      next
        case (Inr deps)
        with t r show ?thesis unfolding p by simp
      qed
    qed
  qed
qed

text \<open>The coarse failure policy, where no \<^verbatim>\<open>version\<close> element lacks text: one
  \<^verbatim>\<open>artifactItem\<close> or \<^verbatim>\<open>dependency\<close> without \<^verbatim>\<open>groupId\<close> or \<^verbatim>\<open>artifactId\<close> makes the
  extraction of the whole file return absent, with the line of the generic handler.\<close>

lemma extract_project_info_missing_child:
  assumes parse: "et_parse w pom = Inr root"
    and g: "find_ns root ''groupId'' = Some g" and a: "find_ns root ''artifactId'' = Some a"
    and texts: "\<forall>item\<in>set (findall_ns root ''artifactItem'').
                  \<forall>ve. find_ns item ''version'' = Some ve \<longrightarrow> elem_text ve \<noteq> None"
    and bad: "\<exists>el\<in>set (findall_ns root ''artifactItem'') \<union> set (findall_ns root ''dependency'').
                find_ns el ''groupId'' = None \<or> find_ns el ''artifactId'' = None"
  shows "extract_project_info w pom
           = Inr ([''Error parsing '' @ pom @ ''. Skipping this file.''], None)"
proof -
  note p = extract_try_present [OF parse g a]
  have only: "\<forall>x\<in>set (findall_ns root ''artifactItem'').
                \<forall>e'. api_dependency root x = Inl e' \<longrightarrow> e' = AttributeError"
    using texts api_dependency_error by blast
  have "extract_try w pom = Inl AttributeError"
  proof (cases "\<exists>el\<in>set (findall_ns root ''artifactItem'').
                  find_ns el ''groupId'' = None \<or> find_ns el ''artifactId'' = None")
    case True
    then have "\<exists>x\<in>set (findall_ns root ''artifactItem''). api_dependency root x = Inl AttributeError"
      using api_dependency_missing_child by blast
    from append_loop_raises [OF this only]
    have "append_loop (api_dependency root) (findall_ns root ''artifactItem'') [] = Inl AttributeError" .
    then show ?thesis unfolding p by simp
  next
    case False
    with bad have "\<exists>x\<in>set (findall_ns root ''dependency''). dependency_string x = Inl AttributeError"
      using dependency_string_missing_child by blast
    moreover have "\<forall>x\<in>set (findall_ns root ''dependency'').
                     \<forall>e'. dependency_string x = Inl e' \<longrightarrow> e' = AttributeError"
      using dependency_string_error by blast
    ultimately
    have d: "append_loop dependency_string (findall_ns root ''dependency'') [] = Inl AttributeError"
      by (rule append_loop_raises)
    show ?thesis
    proof (cases "append_loop (api_dependency root) (findall_ns root ''artifactItem'') []")
      case (Inl e')
      with append_loop_error only have "e' = AttributeError" by blast
      with Inl show ?thesis unfolding p by simp
    next
      case (Inr api)
      with d show ?thesis unfolding p by simp
    qed
  qed
  then show ?thesis
    unfolding extract_project_info_def by simp
qed

subsection \<open>What the traversal finds\<close>

lemma set_entries_paths:
  "set (entries_paths es) = {name # ps | name n ps. (name, n) \<in> set es \<and> ps \<in> set (file_paths n)}"
proof (induction es)
  case Nil
  then show ?case by simp
next
  case (Cons e es)
  obtain name n where e: "e = (name, n)" by (cases e)
  show ?case unfolding e using Cons by auto
qed

lemma file_paths_dir_nonempty: "is_dir n \<Longrightarrow> ps \<in> set (file_paths n) \<Longrightarrow> ps \<noteq> []"
  by (cases n) (auto simp: set_entries_paths)

lemma file_paths_file: "\<not> is_dir n \<Longrightarrow> set (file_paths n) = {[]}"
  by (cases n) auto

lemma in_set_mapI: "x \<in> set xs \<Longrightarrow> f x \<in> set (map f xs)"
  by simp

lemma files_here:
  "set (map (path_join here)
          (filter (\<lambda>file. file = ''pom.xml'') (map fst (filter (\<lambda>e. \<not> is_dir (snd e)) es))))
   = {path_join here name | name m. (name, m) \<in> set es \<and> \<not> is_dir m \<and> name = ''pom.xml''}"
proof (intro set_eqI iffI)
  fix x
  assume "x \<in> set (map (path_join here)
          (filter (\<lambda>file. file = ''pom.xml'') (map fst (filter (\<lambda>e. \<not> is_dir (snd e)) es))))"
  then obtain e where e: "e \<in> set es" "\<not> is_dir (snd e)" "fst e = ''pom.xml''"
    "x = path_join here (fst e)"
    by auto
  obtain name m where "e = (name, m)" by (cases e)
  with e have "x = path_join here name \<and> (name, m) \<in> set es \<and> \<not> is_dir m
             \<and> name = ''pom.xml''"
    by simp
  then show "x \<in> {path_join here name | name m. (name, m) \<in> set es \<and> \<not> is_dir m
                    \<and> name = ''pom.xml''}"
    by blast
next
  fix x
  assume "x \<in> {path_join here name | name m. (name, m) \<in> set es \<and> \<not> is_dir m
                    \<and> name = ''pom.xml''}"
  then obtain name m where x: "x = path_join here name" and m: "(name, m) \<in> set es" "\<not> is_dir m"
    and n: "name = ''pom.xml''"
    by blast
  from m have "(name, m) \<in> set (filter (\<lambda>e. \<not> is_dir (snd e)) es)" by simp
  then have "fst (name, m) \<in> set (map fst (filter (\<lambda>e. \<not> is_dir (snd e)) es))"
    by (rule in_set_mapI)
  then have "name \<in> set (filter (\<lambda>file. file = ''pom.xml'')
                 (map fst (filter (\<lambda>e. \<not> is_dir (snd e)) es)))"
    using n by simp
  then have "path_join here name \<in> set (map (path_join here) (filter (\<lambda>file. file = ''pom.xml'')
                 (map fst (filter (\<lambda>e. \<not> is_dir (snd e)) es))))"
    by (rule in_set_mapI)
  with x show "x \<in> set (map (path_join here)
          (filter (\<lambda>file. file = ''pom.xml'') (map fst (filter (\<lambda>e. \<not> is_dir (snd e)) es))))"
    by simp
qed

lemma pom_below_File: "pom_below here File = {}"
  by (simp add: pom_below_def)

lemma pom_below_not_dir: "\<not> is_dir n \<Longrightarrow> pom_below here n = {}"
  by (cases n) (simp_all add: pom_below_File)

lemma pom_below_Dir:
  "pom_below here (Dir es)
   = {path_join here name | name m. (name, m) \<in> set es \<and> \<not> is_dir m \<and> name = ''pom.xml''}
     \<union> {x. \<exists>name m. (name, m) \<in> set es \<and> is_dir m \<and> x \<in> pom_below (path_join here name) m}"
  (is "?L = ?A \<union> ?B")
proof (intro set_eqI iffI)
  fix x assume "x \<in> ?L"
  then obtain qs where x: "x = foldl path_join here qs" and qs: "qs \<in> set (entries_paths es)"
    and l: "last qs = ''pom.xml''"
    unfolding pom_below_def by auto
  from qs obtain name m ps where q: "qs = name # ps" and m: "(name, m) \<in> set es"
    and ps: "ps \<in> set (file_paths m)"
    unfolding set_entries_paths by blast
  show "x \<in> ?A \<union> ?B"
  proof (cases "is_dir m")
    case True
    from file_paths_dir_nonempty [OF True ps] have ne: "ps \<noteq> []" .
    with l q have "last ps = ''pom.xml''" by simp
    moreover from x q have "x = foldl path_join (path_join here name) ps" by simp
    ultimately have "x \<in> pom_below (path_join here name) m"
      unfolding pom_below_def using ps ne by blast
    with m True have "x \<in> ?B" by blast
    then show ?thesis ..
  next
    case False
    with ps have e: "ps = []" by (simp add: file_paths_file)
    with l q have "name = ''pom.xml''" by simp
    moreover from x q e have "x = path_join here name" by simp
    ultimately have "x \<in> ?A" using m False by blast
    then show ?thesis ..
  qed
next
  fix x assume "x \<in> ?A \<union> ?B"
  then show "x \<in> ?L"
  proof
    assume "x \<in> ?A"
    then obtain name m where x: "x = path_join here name" and m: "(name, m) \<in> set es"
      and f: "\<not> is_dir m" and n: "name = ''pom.xml''" by blast
    from f have "[] \<in> set (file_paths m)" by (simp add: file_paths_file)
    with m have "[name] \<in> set (entries_paths es)"
      unfolding set_entries_paths by blast
    moreover have "x = foldl path_join here [name]" using x by simp
    moreover have "last [name] = ''pom.xml''" using n by simp
    ultimately show ?thesis
      unfolding pom_below_def file_paths.simps by blast
  next
    assume "x \<in> ?B"
    then obtain name m where m: "(name, m) \<in> set es"
      and b: "x \<in> pom_below (path_join here name) m" by blast
    from b obtain ps where x: "x = foldl path_join (path_join here name) ps"
      and ps: "ps \<in> set (file_paths m)" "ps \<noteq> []" "last ps = ''pom.xml''"
      unfolding pom_below_def by blast
    from m ps(1) have "name # ps \<in> set (entries_paths es)"
      unfolding set_entries_paths by blast
    moreover have "x = foldl path_join here (name # ps)" using x by simp
    moreover have "last (name # ps) = ''pom.xml''" using ps by simp
    ultimately show ?thesis
      unfolding pom_below_def file_paths.simps by blast
  qed
qed

lemma walk_pom_files:
  "set (concat (map (\<lambda>(root, dirs, files).
          map (path_join root) (filter (\<lambda>file. file = ''pom.xml'') files)) (os_walk here n)))
   = pom_below here n"
  "set (concat (map (\<lambda>(root, dirs, files).
          map (path_join root) (filter (\<lambda>file. file = ''pom.xml'') files)) (walk_dirs here es)))
   = {x. \<exists>name m. (name, m) \<in> set es \<and> is_dir m \<and> x \<in> pom_below (path_join here name) m}"
proof (induction here n and here es rule: os_walk_walk_dirs.induct)
  case (1 here)
  show ?case by (simp add: pom_below_File)
next
  case (2 here es)
  have "set (concat (map (\<lambda>(root, dirs, files).
          map (path_join root) (filter (\<lambda>file. file = ''pom.xml'') files)) (os_walk here (Dir es))))
        = set (map (path_join here)
            (filter (\<lambda>file. file = ''pom.xml'') (map fst (filter (\<lambda>e. \<not> is_dir (snd e)) es))))
          \<union> set (concat (map (\<lambda>(root, dirs, files).
          map (path_join root) (filter (\<lambda>file. file = ''pom.xml'') files)) (walk_dirs here es)))"
    by simp
  then show ?case
    unfolding files_here 2 pom_below_Dir .
next
  case (3 here)
  show ?case by simp
next
  case (4 here name n es)
  show ?case
  proof (cases "is_dir n")
    case True
    have "{x. \<exists>name' m. (name', m) \<in> set ((name, n) # es) \<and> is_dir m
                \<and> x \<in> pom_below (path_join here name') m}
          = pom_below (path_join here name) n
            \<union> {x. \<exists>name' m. (name', m) \<in> set es \<and> is_dir m
                \<and> x \<in> pom_below (path_join here name') m}"
      using True by auto
    moreover have "set (concat (map (\<lambda>(root, dirs, files).
          map (path_join root) (filter (\<lambda>file. file = ''pom.xml'') files))
            (walk_dirs here ((name, n) # es))))
        = pom_below (path_join here name) n
            \<union> {x. \<exists>name' m. (name', m) \<in> set es \<and> is_dir m
                \<and> x \<in> pom_below (path_join here name') m}"
      using True 4 by simp
    ultimately show ?thesis by simp
  next
    case False
    have "{x. \<exists>name' m. (name', m) \<in> set ((name, n) # es) \<and> is_dir m
                \<and> x \<in> pom_below (path_join here name') m}
          = {x. \<exists>name' m. (name', m) \<in> set es \<and> is_dir m
                \<and> x \<in> pom_below (path_join here name') m}"
      using False by auto
    moreover have "set (concat (map (\<lambda>(root, dirs, files).
          map (path_join root) (filter (\<lambda>file. file = ''pom.xml'') files))
            (walk_dirs here ((name, n) # es))))
        = {x. \<exists>name' m. (name', m) \<in> set es \<and> is_dir m
                \<and> x \<in> pom_below (path_join here name') m}"
      using False 4 by simp
    ultimately show ?thesis by simp
  qed
qed

text \<open>With recursion the function returns the path of every file named \<^verbatim>\<open>pom.xml\<close> at any
  depth of the tree, the top directory included, and nothing else.\<close>

lemma find_pom_files_recursive:
  "find_pom_files (Some n) directory True = Inr found \<Longrightarrow> set found = pom_below directory n"
  "find_pom_files None directory True = Inr []"
  using walk_pom_files(1) [of directory n] by (auto simp: find_pom_files_def)

text \<open>Without recursion it looks into the direct subdirectories only, and returns the
  path \<^verbatim>\<open>directory/name/pom.xml\<close> for each of them that has an entry named \<^verbatim>\<open>pom.xml\<close>,
  whether this entry is a file or a directory.\<close>

lemma find_pom_files_flat:
  "find_pom_files (Some (Dir es)) directory False
   = Inr (map (\<lambda>e. path_join (path_join directory (fst e)) ''pom.xml'')
           (filter (\<lambda>e. is_dir (snd e) \<and> exists_in (snd e) ''pom.xml'') es))"
proof -
  have "concat (map (\<lambda>(subfolder, n).
                         (let pom_file = path_join subfolder ''pom.xml''
                          in if exists_in n ''pom.xml'' then [pom_file] else []))
                  (map (\<lambda>f. (path_join directory (fst f), snd f))
                     (filter (\<lambda>f. is_dir (snd f)) es)))
        = map (\<lambda>e. path_join (path_join directory (fst e)) ''pom.xml'')
            (filter (\<lambda>e. is_dir (snd e) \<and> exists_in (snd e) ''pom.xml'') es)"
    by (induction es) (simp_all add: Let_def)
  then show ?thesis
    by (simp add: find_pom_files_def Let_def)
qed

end
